theory Spec2Isabelle
  imports
    Main
    "HOL-Library.Sublist"
    "HOL-Library.AList"
    "HOL-Library.Signed_Division"
begin

section \<open>Go strings\<close>

text \<open>
  A Go \<^verbatim>\<open>string\<close> is a sequence of bytes; it is modelled as \<^typ>\<open>string\<close>
  (a list of 8-bit characters).  The functions of package \<^verbatim>\<open>strings\<close> that
  \<^verbatim>\<open>firebase.go\<close> calls are written out below, argument order as in Go.
\<close>

definition strings_HasPrefix :: "string \<Rightarrow> string \<Rightarrow> bool" where
  "strings_HasPrefix s pre = prefix pre s"

definition strings_HasSuffix :: "string \<Rightarrow> string \<Rightarrow> bool" where
  "strings_HasSuffix s suf = suffix suf s"

text \<open>\<^verbatim>\<open>strings.TrimSuffix\<close> removes one occurrence of the suffix, if present.\<close>

definition strings_TrimSuffix :: "string \<Rightarrow> string \<Rightarrow> string" where
  "strings_TrimSuffix s suf =
     (if strings_HasSuffix s suf then take (length s - length suf) s else s)"

text \<open>
  \<^verbatim>\<open>strings.Trim\<close> removes every leading and every trailing character that
  occurs in the cutset.
\<close>

definition strings_Trim :: "string \<Rightarrow> string \<Rightarrow> string" where
  "strings_Trim s cutset =
     rev (dropWhile (\<lambda>c. c \<in> set cutset) (rev (dropWhile (\<lambda>c. c \<in> set cutset) s)))"

section \<open>Address and path normalisation\<close>

text \<open>
  \<^verbatim>\<open>
  func sanitizeURL(url string) string {
      if !strings.HasPrefix(url, "https://") && !strings.HasPrefix(url, "http://") {
          url = "https://" + url
      }
      if strings.HasSuffix(url, "/") {
          url = url[:len(url)-1]
      }
      return url
  }
  \<close>
\<close>

definition sanitizeURL :: "string \<Rightarrow> string" where
  "sanitizeURL url =
     (let url1 = (if \<not> strings_HasPrefix url ''https://'' \<and> \<not> strings_HasPrefix url ''http://''
                  then ''https://'' @ url else url);
          url2 = (if strings_HasSuffix url1 ''/''
                  then take (length url1 - 1) url1 else url1)
      in url2)"

text \<open>
  \<^verbatim>\<open>
  func sanitizePath(p string) string {
      s := strings.Trim(p, "/")
      s = strings.TrimSuffix(s, ".json")
      return strings.TrimSuffix(s, "/")
  }
  \<close>
\<close>

definition sanitizePath :: "string \<Rightarrow> string" where
  "sanitizePath p =
     (let s = strings_Trim p ''/'';
          s' = strings_TrimSuffix s ''.json''
      in strings_TrimSuffix s' ''/'')"

section \<open>Errors\<close>

text \<open>
  Go error values, by the dynamic types that \<^verbatim>\<open>doRequest\<close> tells apart:
  \<^item> \<open>UrlError op url err\<close> is a \<^verbatim>\<open>*url.Error{Op, URL, Err}\<close>, where \<open>err\<close> is
    \<open>None\<close> for a nil \<^verbatim>\<open>Err\<close>;
  \<^item> \<open>NetError msg t\<close> is a value of any other type implementing \<^verbatim>\<open>net.Error\<close>
    (the methods \<^verbatim>\<open>Error\<close>, \<^verbatim>\<open>Timeout\<close> and \<^verbatim>\<open>Temporary\<close>), whose
    \<^verbatim>\<open>Timeout()\<close> returns \<open>t\<close>;
  \<^item> \<open>TimeoutMethodError msg t\<close> is a value of a type that has a method
    \<^verbatim>\<open>Timeout() bool\<close>, returning \<open>t\<close>, but no method \<^verbatim>\<open>Temporary\<close>, so that it
    does not implement \<^verbatim>\<open>net.Error\<close> (\<^verbatim>\<open>*os.SyscallError\<close>, \<^verbatim>\<open>*os.PathError\<close>);
  \<^item> \<open>PlainError msg\<close> is any other error (\<^verbatim>\<open>errors.New\<close>, \<^verbatim>\<open>fmt.Errorf\<close>,
    errors of \<^verbatim>\<open>encoding/json\<close>, ...);
  \<^item> \<open>ErrTimeout err\<close> is the struct \<^verbatim>\<open>ErrTimeout{error}\<close> of this package.
\<close>

datatype go_error =
    UrlError string string "go_error option"
  | NetError string bool
  | TimeoutMethodError string bool
  | PlainError string
  | ErrTimeout go_error

text \<open>
  The type assertion \<^verbatim>\<open>e.(interface{ Timeout() bool })\<close>: \<open>Some t\<close> when the
  dynamic type of \<open>e\<close> has the method, with \<open>t\<close> its result.  The method of a
  \<^verbatim>\<open>*url.Error\<close> is
  \<^verbatim>\<open>
  func (e *Error) Timeout() bool {
      t, ok := e.Err.(interface{ Timeout() bool })
      return ok && t.Timeout()
  }
  \<close>
  so it asks the wrapped error for the method only, not for \<^verbatim>\<open>net.Error\<close>.
  \<^verbatim>\<open>ErrTimeout\<close> embeds the interface \<^verbatim>\<open>error\<close>, which promotes \<^verbatim>\<open>Error\<close> alone,
  so it has no \<^verbatim>\<open>Timeout\<close> method.
\<close>

fun Timeout_method :: "go_error \<Rightarrow> bool option" where
  "Timeout_method (NetError msg t) = Some t"
| "Timeout_method (TimeoutMethodError msg t) = Some t"
| "Timeout_method (UrlError op u None) = Some False"
| "Timeout_method (UrlError op u (Some e)) =
     Some (case Timeout_method e of Some t \<Rightarrow> t | None \<Rightarrow> False)"
| "Timeout_method (PlainError msg) = None"
| "Timeout_method (ErrTimeout e) = None"

text \<open>
  The type assertion \<^verbatim>\<open>e.(net.Error)\<close>: \<open>Some t\<close> when the dynamic type of \<open>e\<close>
  implements \<^verbatim>\<open>net.Error\<close>, with \<open>t\<close> the result of its \<^verbatim>\<open>Timeout()\<close> method.
  A \<^verbatim>\<open>*url.Error\<close> implements the interface (it has \<^verbatim>\<open>Timeout\<close> and
  \<^verbatim>\<open>Temporary\<close>); a type with \<^verbatim>\<open>Timeout\<close> alone does not.
\<close>

fun as_net_Error :: "go_error \<Rightarrow> bool option" where
  "as_net_Error (NetError msg t) = Some t"
| "as_net_Error (UrlError op u inner) = Timeout_method (UrlError op u inner)"
| "as_net_Error (TimeoutMethodError msg t) = None"
| "as_net_Error (PlainError msg) = None"
| "as_net_Error (ErrTimeout e) = None"

definition errors_New :: "string \<Rightarrow> go_error" where
  "errors_New text = PlainError text"



text \<open>Run-time panics of the Go code that the model keeps as results.\<close>

datatype panic = NilMapAssignment | IndexOutOfRange

section \<open>HTTP requests, responses and clients\<close>

text \<open>
  \<^verbatim>\<open>http.Header\<close> and \<^verbatim>\<open>url.Values\<close> are both \<^verbatim>\<open>map[string][]string\<close>.
  The contents of a Go map are an association list with distinct keys, read
  with \<^const>\<open>map_of\<close> and written with \<^const>\<open>AList.update\<close>.
  A header map is \<open>None\<close> when it is the nil map.
\<close>

type_synonym header = "(string \<times> string list) list"

record request =
  Method :: string
  URL :: string
  Header :: "header option"
  Body :: string

text \<open>
  A response as \<^verbatim>\<open>doRequest\<close> reads it: the status code and the result of
  \<^verbatim>\<open>ioutil.ReadAll(resp.Body)\<close>, which is the whole body or a read error.  The
  status code is a Go \<^verbatim>\<open>int\<close>; the only arithmetic on it is a division by 200,
  which cannot overflow, so it is an \<^typ>\<open>int\<close> here.
\<close>

record response =
  StatusCode :: int
  ReadAll :: "go_error + string"

text \<open>
  The transport that \<^verbatim>\<open>New\<close> builds has \<^verbatim>\<open>DisableKeepAlives: true\<close> and a
  \<^verbatim>\<open>Dial\<close> closure that dials with \<^verbatim>\<open>TimeoutDuration\<close>; \<open>TimeoutDial\<close> stands
  for that closure (its timing is not modelled).
\<close>

datatype dialer = DefaultDial | TimeoutDial

record http_Transport =
  DisableKeepAlives :: bool
  Dial :: dialer

record http_Client =
  Transport :: "http_Transport option"
  CheckRedirect :: "(request \<Rightarrow> request list \<Rightarrow> panic + (go_error option \<times> request)) option"

text \<open>
  The functions of the Go standard library that the file calls and that are
  not part of it are parameters of the model:
  \<^item> \<open>Values_Encode\<close> is \<^verbatim>\<open>url.Values.Encode\<close>, on the contents of the map;
  \<^item> \<open>NewRequest_err\<close> is the validation of \<^verbatim>\<open>http.NewRequest\<close> (method and URL):
    the error it returns, if any;
  \<^item> \<open>client_Do\<close> is \<^verbatim>\<open>(*http.Client).Do\<close>; its answer may depend on the requests
    the client has been given before (the log, oldest first).
\<close>

record net_lib =
  Values_Encode :: "(string \<times> string list) list \<Rightarrow> string"
  NewRequest_err :: "string \<Rightarrow> string \<Rightarrow> go_error option"
  client_Do :: "http_Client \<Rightarrow> request list \<Rightarrow> request \<Rightarrow> go_error + response"

text \<open>
  \<^verbatim>\<open>http.NewRequest(method, url, body)\<close>: an empty method means \<^verbatim>\<open>GET\<close>, the
  header map is allocated empty.
\<close>

definition http_NewRequest :: "net_lib \<Rightarrow> string \<Rightarrow> string \<Rightarrow> string \<Rightarrow> go_error + request" where
  "http_NewRequest lib method u body =
     (case NewRequest_err lib method u of
        Some err \<Rightarrow> Inl err
      | None \<Rightarrow> Inr \<lparr>Method = (if method = [] then ''GET'' else method),
                      URL = u, Header = Some [], Body = body\<rparr>)"

section \<open>The store: maps, slices and channels\<close>

text \<open>
  Go maps, slices and channels are references.  The store keeps the objects
  they refer to; an address is an index into the list of objects of its kind,
  and allocation appends.  A slice is a window \<open>(s_arr, s_off, s_len, s_cap)\<close>
  on a backing array of strings.
\<close>

record slice =
  s_arr :: nat
  s_off :: nat
  s_len :: nat
  s_cap :: nat

record heap =
  values_objs :: "(string \<times> slice) list list"
  string_arrays :: "string list list"
  event_objs :: "(string \<times> nat) list list"
  chan_count :: nat

text \<open>\<^verbatim>\<open>_url.Values{}\<close>: a new, empty map.\<close>

definition new_Values :: "heap \<Rightarrow> nat \<times> heap" where
  "new_Values h = (length (values_objs h), h\<lparr>values_objs := values_objs h @ [[]]\<rparr>)"

text \<open>\<^verbatim>\<open>make(chan struct{})\<close>.\<close>

definition make_chan :: "heap \<Rightarrow> nat \<times> heap" where
  "make_chan h = (chan_count h, h\<lparr>chan_count := chan_count h + 1\<rparr>)"

text \<open>\<^verbatim>\<open>map[string]chan struct{}{}\<close>.\<close>

definition new_eventFuncs :: "heap \<Rightarrow> nat \<times> heap" where
  "new_eventFuncs h = (length (event_objs h), h\<lparr>event_objs := event_objs h @ [[]]\<rparr>)"

text \<open>The entries of a \<^verbatim>\<open>url.Values\<close> reference; the nil map has none.\<close>

definition Values_entries :: "heap \<Rightarrow> nat option \<Rightarrow> (string \<times> slice) list" where
  "Values_entries h m =
     (case m of
        None \<Rightarrow> []
      | Some a \<Rightarrow> if a < length (values_objs h) then values_objs h ! a else [])"

text \<open>\<^verbatim>\<open>v, ok := m[k]\<close>.\<close>

definition Values_lookup :: "heap \<Rightarrow> nat option \<Rightarrow> string \<Rightarrow> slice option" where
  "Values_lookup h m k = map_of (Values_entries h m) k"

text \<open>\<^verbatim>\<open>m[k] = v\<close> on the map object at address \<open>a\<close>.\<close>

definition Values_store :: "heap \<Rightarrow> nat \<Rightarrow> string \<Rightarrow> slice \<Rightarrow> heap" where
  "Values_store h a k v =
     h\<lparr>values_objs := (values_objs h)[a := AList.update k v (values_objs h ! a)]\<rparr>"

text \<open>\<^verbatim>\<open>delete(m, k)\<close> on the map object at address \<open>a\<close>.\<close>

definition Values_delete :: "heap \<Rightarrow> nat \<Rightarrow> string \<Rightarrow> heap" where
  "Values_delete h a k =
     h\<lparr>values_objs := (values_objs h)[a := AList.delete k (values_objs h ! a)]\<rparr>"

text \<open>The elements \<^verbatim>\<open>s[0], ..., s[len(s)-1]\<close> of a slice.\<close>

definition slice_elems :: "heap \<Rightarrow> slice \<Rightarrow> string list" where
  "slice_elems h s =
     (if s_arr s < length (string_arrays h)
      then take (s_len s) (drop (s_off s) (string_arrays h ! s_arr s)) else [])"

text \<open>What a \<^verbatim>\<open>url.Values\<close> reference holds: each key with the strings of its slice.\<close>

definition Values_contents :: "heap \<Rightarrow> nat option \<Rightarrow> (string \<times> string list) list" where
  "Values_contents h m = map (\<lambda>(k, v). (k, slice_elems h v)) (Values_entries h m)"

text \<open>\<^verbatim>\<open>s[i] = x\<close>: writes into the backing array, panics out of range.\<close>

definition slice_store :: "heap \<Rightarrow> slice \<Rightarrow> nat \<Rightarrow> string \<Rightarrow> panic + heap" where
  "slice_store h s i x =
     (if i < s_len s
      then Inr (h\<lparr>string_arrays :=
                   (string_arrays h)[s_arr s := (string_arrays h ! s_arr s)[s_off s + i := x]]\<rparr>)
      else Inl IndexOutOfRange)"

section \<open>References\<close>

datatype mutex = Unlocked | Locked

text \<open>
  \<^verbatim>\<open>
  type Firebase struct {
      url    string
      params _url.Values
      client *http.Client
      eventMtx   sync.Mutex
      eventFuncs map[string]chan struct{}
      watchMtx     sync.Mutex
      watching     bool
      stopWatching chan struct{}
  }
  \<close>
  The map and channel fields hold addresses of the store (\<open>None\<close> is nil).
  The client is a pointer that references share; nothing in the file writes
  through it, so the field holds the client itself.
\<close>

record Firebase =
  url :: string
  params :: "nat option"
  client :: http_Client
  eventMtx :: mutex
  eventFuncs :: "nat option"
  watchMtx :: mutex
  watching :: bool
  stopWatching :: "nat option"

text \<open>
  \<^verbatim>\<open>fb.params[k][i] = x\<close>: a missing key reads as the nil slice, and indexing it
  panics.
\<close>

definition params_elem_store ::
    "heap \<Rightarrow> 'a Firebase_scheme \<Rightarrow> string \<Rightarrow> nat \<Rightarrow> string \<Rightarrow> panic + heap" where
  "params_elem_store h fb k i x =
     (case Values_lookup h (params fb) k of
        None \<Rightarrow> Inl IndexOutOfRange
      | Some s \<Rightarrow> slice_store h s i x)"

text \<open>
  \<^verbatim>\<open>var defaultRedirectLimit = 30\<close>; nothing in the file assigns the variable.
\<close>

definition defaultRedirectLimit :: nat where
  "defaultRedirectLimit = 30"

section \<open>The redirect policy\<close>

text \<open>The verb \<^verbatim>\<open>%d\<close> of \<^verbatim>\<open>fmt.Errorf\<close> on a length: decimal digits.\<close>

fun decimal :: "nat \<Rightarrow> string" where
  "decimal n =
     (if n < 10 then [''0123456789'' ! n]
      else decimal (n div 10) @ [''0123456789'' ! (n mod 10)])"

declare decimal.simps [simp del]

text \<open>
  The loop \<^verbatim>\<open>for key, val := range via[0].Header { req.Header[key] = val }\<close>, on
  the entries of the first request's header.  Assigning into a nil map panics.
\<close>

fun copy_headers :: "header \<Rightarrow> request \<Rightarrow> panic + request" where
  "copy_headers [] req = Inr req"
| "copy_headers ((key, val) # rest) req =
     (case Header req of
        None \<Rightarrow> Inl NilMapAssignment
      | Some hdr \<Rightarrow> copy_headers rest (req\<lparr>Header := Some (AList.update key val hdr)\<rparr>))"

text \<open>
  \<^verbatim>\<open>
  func redirectPreserveHeaders(req *http.Request, via []*http.Request) error {
      if len(via) == 0 {
          return nil
      }
      if len(via) > defaultRedirectLimit {
          return fmt.Errorf("%d consecutive requests(redirects)", len(via))
      }
      for key, val := range via[0].Header {
          req.Header[key] = val
      }
      return nil
  }
  \<close>
  The result is the returned error (\<open>None\<close> is nil) and the request as the
  function leaves it.
\<close>

definition redirectPreserveHeaders ::
    "request \<Rightarrow> request list \<Rightarrow> panic + (go_error option \<times> request)" where
  "redirectPreserveHeaders req via =
     (if length via = 0 then Inr (None, req)
      else if length via > defaultRedirectLimit
      then Inr (Some (PlainError (decimal (length via) @ '' consecutive requests(redirects)'')), req)
      else (case copy_headers (case Header (via ! 0) of None \<Rightarrow> [] | Some hdr \<Rightarrow> hdr) req of
              Inl p \<Rightarrow> Inl p
            | Inr req' \<Rightarrow> Inr (None, req')))"

text \<open>\<^verbatim>\<open>h[key]\<close> on a header map; reading the nil map finds nothing.\<close>

definition Header_get :: "request \<Rightarrow> string \<Rightarrow> string list option" where
  "Header_get req key = (case Header req of None \<Rightarrow> None | Some hdr \<Rightarrow> map_of hdr key)"

section \<open>Construction, rendering and derivation\<close>

text \<open>
  \<^verbatim>\<open>
  func New(url string, client *http.Client) *Firebase {
      if client == nil {
          var tr *http.Transport
          tr = &http.Transport{DisableKeepAlives: true, Dial: ...}
          client = &http.Client{Transport: tr, CheckRedirect: redirectPreserveHeaders}
      }
      return &Firebase{
          url:          sanitizeURL(url),
          params:       _url.Values{},
          client:       client,
          stopWatching: make(chan struct{}),
          eventFuncs:   map[string]chan struct{}{},
      }
  }
  \<close>
\<close>

definition New :: "heap \<Rightarrow> string \<Rightarrow> http_Client option \<Rightarrow> Firebase \<times> heap" where
  "New h u cl =
     (let cl' = (case cl of
                   None \<Rightarrow> \<lparr>Transport = Some \<lparr>DisableKeepAlives = True, Dial = TimeoutDial\<rparr>,
                             CheckRedirect = Some redirectPreserveHeaders\<rparr>
                 | Some c \<Rightarrow> c);
          (m, h1) = new_Values h;
          (ch, h2) = make_chan h1;
          (ef, h3) = new_eventFuncs h2
      in (\<lparr>url = sanitizeURL u, params = Some m, client = cl',
           eventMtx = Unlocked, eventFuncs = Some ef,
           watchMtx = Unlocked, watching = False, stopWatching = Some ch\<rparr>, h3))"

text \<open>
  \<^verbatim>\<open>
  func (fb *Firebase) String() string {
      path := fb.url + "/.json"
      if len(fb.params) > 0 {
          path += "?" + fb.params.Encode()
      }
      return path
  }
  \<close>
\<close>

definition String :: "net_lib \<Rightarrow> heap \<Rightarrow> 'a Firebase_scheme \<Rightarrow> string" where
  "String lib h fb =
     (let path = url fb @ ''/.json''
      in if length (Values_entries h (params fb)) > 0
         then path @ ''?'' @ Values_Encode lib (Values_contents h (params fb))
         else path)"

text \<open>
  \<^verbatim>\<open>
  func (fb *Firebase) copy() *Firebase {
      c := &Firebase{
          url:          fb.url,
          params:       _url.Values{},
          client:       fb.client,
          stopWatching: make(chan struct{}),
          eventFuncs:   map[string]chan struct{}{},
      }
      for k, v := range fb.params {
          c.params[k] = v
      }
      return c
  }
  \<close>
  The loop assigns the slice \<open>v\<close> itself (pointer, length and capacity), so
  the new map's values share their backing arrays with the old map's.
\<close>

definition copy :: "heap \<Rightarrow> 'a Firebase_scheme \<Rightarrow> Firebase \<times> heap" where
  "copy h fb =
     (let (m, h1) = new_Values h;
          (ch, h2) = make_chan h1;
          (ef, h3) = new_eventFuncs h2;
          c = \<lparr>url = url fb, params = Some m, client = client fb,
               eventMtx = Unlocked, eventFuncs = Some ef,
               watchMtx = Unlocked, watching = False, stopWatching = Some ch\<rparr>;
          h4 = fold (\<lambda>(k, v) h'. Values_store h' m k v) (Values_entries h (params fb)) h3
      in (c, h4))"

text \<open>
  \<^verbatim>\<open>
  func (fb *Firebase) Child(child string) *Firebase {
      c := fb.copy()
      c.url = c.url + "/" + child
      return c
  }
  \<close>
\<close>

definition Child :: "heap \<Rightarrow> 'a Firebase_scheme \<Rightarrow> string \<Rightarrow> Firebase \<times> heap" where
  "Child h fb child =
     (let (c, h') = copy h fb
      in (c\<lparr>url := url c @ ''/'' @ child\<rparr>, h'))"

section \<open>Request execution\<close>

text \<open>
  \<^verbatim>\<open>
  func (fb *Firebase) makeRequest(method string, body []byte) (*http.Request, error) {
      return http.NewRequest(method, fb.String(), bytes.NewReader(body))
  }
  \<close>
\<close>

definition makeRequest ::
    "net_lib \<Rightarrow> heap \<Rightarrow> 'a Firebase_scheme \<Rightarrow> string \<Rightarrow> string \<Rightarrow> go_error + request" where
  "makeRequest lib h fb method body = http_NewRequest lib method (String lib h fb) body"

text \<open>
  \<^verbatim>\<open>doRequest\<close>, lines 176 to 218 of \<^verbatim>\<open>firebase.go\<close>.  The state is the log
  of the requests given to \<^verbatim>\<open>fb.client.Do\<close>; the result is \<open>Inl err\<close> for
  \<^verbatim>\<open>return nil, err\<close> and \<open>Inr respBody\<close> for \<^verbatim>\<open>return respBody, nil\<close>.
  The type switch on \<^verbatim>\<open>err\<close> takes the first case that matches, so a
  \<^verbatim>\<open>*url.Error\<close> never reaches the case \<^verbatim>\<open>net.Error\<close>.  The status test is
  \<^verbatim>\<open>resp.StatusCode/200 != 1\<close>, Go's integer division, which truncates towards zero
  (\<^const>\<open>signed_divide\<close>).  The deferred \<^verbatim>\<open>resp.Body.Close()\<close> has no effect on
  the result or on the log.
\<close>

definition doRequest ::
    "net_lib \<Rightarrow> heap \<Rightarrow> 'a Firebase_scheme \<Rightarrow> string \<Rightarrow> string \<Rightarrow> request list
       \<Rightarrow> (go_error + string) \<times> request list" where
  "doRequest lib h fb method body log =
     (case makeRequest lib h fb method body of
        Inl err \<Rightarrow> (Inl err, log)
      | Inr req \<Rightarrow>
         (case client_Do lib (client fb) log req of
            Inl err \<Rightarrow>
              (case err of
                 UrlError op u inner \<Rightarrow>
                   (case (case inner of None \<Rightarrow> None | Some e1 \<Rightarrow> as_net_Error e1) of
                      Some True \<Rightarrow> (Inl (ErrTimeout err), log @ [req])
                    | _ \<Rightarrow> (Inl err, log @ [req]))
               | NetError msg t \<Rightarrow>
                   (if t then (Inl (ErrTimeout err), log @ [req])
                    else (Inl err, log @ [req]))
               | _ \<Rightarrow> (Inl err, log @ [req]))
          | Inr resp \<Rightarrow>
              (case ReadAll resp of
                 Inl err \<Rightarrow> (Inl err, log @ [req])
               | Inr respBody \<Rightarrow>
                   (if StatusCode resp sdiv 200 \<noteq> 1
                    then (Inl (errors_New respBody), log @ [req])
                    else (Inr respBody, log @ [req])))))"

section \<open>Push\<close>

text \<open>
  \<^verbatim>\<open>Push\<close> builds its result from two fields, \<^verbatim>\<open>repo\<close> and \<^verbatim>\<open>path\<close>, whose
  declaration is not in \<^verbatim>\<open>firebase.go\<close>.  They extend the record: \<open>path\<close> is a
  string (it is concatenated with strings), the type of \<open>repo\<close> is left open.
\<close>

record 'r Firebase_push = Firebase +
  repo :: 'r
  path :: string

text \<open>
  \<^verbatim>\<open>json.Marshal\<close> on the caller's value and \<^verbatim>\<open>json.Unmarshal\<close> into a
  \<^verbatim>\<open>map[string]string\<close> are parameters.
\<close>

record 'v json_lib =
  json_Marshal :: "'v \<Rightarrow> go_error + string"
  json_Unmarshal :: "string \<Rightarrow> go_error + (string \<times> string) list"

text \<open>\<^verbatim>\<open>m[key]\<close> on a \<^verbatim>\<open>map[string]string\<close>: a missing key reads as the empty string.\<close>

definition map_index :: "(string \<times> string) list \<Rightarrow> string \<Rightarrow> string" where
  "map_index m key = (case map_of m key of None \<Rightarrow> [] | Some v \<Rightarrow> v)"

text \<open>
  \<^verbatim>\<open>
  func (fb *Firebase) Push(v interface{}) (*Firebase, error) {
      bytes, err := json.Marshal(v)
      if err != nil {
          return nil, err
      }
      bytes, err = fb.doRequest("POST", bytes)
      if err != nil {
          return nil, err
      }
      var m map[string]string
      if err := json.Unmarshal(bytes, &m); err != nil {
          return nil, err
      }
      return &Firebase{
          repo:   fb.repo,
          path:   fb.path + "/" + m["name"],
          client: fb.client,
      }, err
  }
  \<close>
  The fields that the composite literal leaves out have their zero values.
\<close>

definition Push ::
    "net_lib \<Rightarrow> 'v json_lib \<Rightarrow> heap \<Rightarrow> 'r Firebase_push \<Rightarrow> 'v \<Rightarrow> request list
       \<Rightarrow> (go_error + 'r Firebase_push) \<times> request list" where
  "Push lib js h fb v log =
     (case json_Marshal js v of
        Inl err \<Rightarrow> (Inl err, log)
      | Inr bytes \<Rightarrow>
         (case doRequest lib h fb ''POST'' bytes log of
            (Inl err, log') \<Rightarrow> (Inl err, log')
          | (Inr bytes', log') \<Rightarrow>
              (case json_Unmarshal js bytes' of
                 Inl err \<Rightarrow> (Inl err, log')
               | Inr m \<Rightarrow>
                   (Inr \<lparr>url = [], params = None, client = client fb,
                         eventMtx = Unlocked, eventFuncs = None,
                         watchMtx = Unlocked, watching = False, stopWatching = None,
                         repo = repo fb, path = path fb @ ''/'' @ map_index m ''name''\<rparr>,
                    log'))))"

section \<open>Concrete stores, libraries and references\<close>

text \<open>The store before anything is allocated.\<close>

definition empty_heap :: heap where
  "empty_heap = \<lparr>values_objs = [], string_arrays = [], event_objs = [], chan_count = 0\<rparr>"

text \<open>
  A library whose client answers every request with the given status code and
  body, whose \<^verbatim>\<open>http.NewRequest\<close> accepts everything and whose
  \<^verbatim>\<open>Encode\<close> is not looked at.
\<close>

definition canned_lib :: "int \<Rightarrow> string \<Rightarrow> net_lib" where
  "canned_lib code body =
     \<lparr>Values_Encode = (\<lambda>vs. []),
      NewRequest_err = (\<lambda>method u. None),
      client_Do = (\<lambda>cl log req. Inr \<lparr>StatusCode = code, ReadAll = Inr body\<rparr>)\<rparr>"

text \<open>\<^verbatim>\<open>New(u, cl).String()\<close>: the URL that a new reference renders to.\<close>

definition rendered :: "net_lib \<Rightarrow> heap \<Rightarrow> string \<Rightarrow> http_Client option \<Rightarrow> string" where
  "rendered lib h u cl = String lib (snd (New h u cl)) (fst (New h u cl))"

text \<open>\<^verbatim>\<open>New("example.com", nil)\<close> on the empty store.\<close>

definition root_ref :: "Firebase \<times> heap" where
  "root_ref = New empty_heap ''example.com'' None"


text \<open>
  A reference with one query parameter: the store after
  \<^verbatim>\<open>New("example.com", nil)\<close> and \<^verbatim>\<open>params.Set("auth", "secret")\<close>, which
  stores the one-element slice \<^verbatim>\<open>[]string{"secret"}\<close> under the key.
\<close>

definition auth_ref :: "Firebase \<times> heap" where
  "auth_ref =
     (fst root_ref,
      (snd root_ref)\<lparr>values_objs := [[(''auth'', \<lparr>s_arr = 0, s_off = 0, s_len = 1, s_cap = 1\<rparr>)]],
                     string_arrays := [[''secret'']]\<rparr>)"

text \<open>Its child \<^verbatim>\<open>users\<close>.\<close>

definition auth_child :: "Firebase \<times> heap" where
  "auth_child = Child (snd auth_ref) (fst auth_ref) ''users''"

text \<open>
  What the parent holds after \<^verbatim>\<open>child.params["auth"][0] = "changed"\<close>.
\<close>

definition parent_after_child_write :: "panic + (string \<times> string list) list" where
  "parent_after_child_write =
     (case params_elem_store (snd auth_child) (fst auth_child) ''auth'' 0 ''changed'' of
        Inl p \<Rightarrow> Inl p
      | Inr g \<Rightarrow> Inr (Values_contents g (params (fst auth_ref))))"

text \<open>The body that the service answers a push with, for the generated key \<^verbatim>\<open>-K1\<close>.\<close>

definition push_response :: string where
  \<open>push_response = ''{"name":"-K1"}''\<close>

text \<open>
  A JSON library on values that are either unsupported by \<^verbatim>\<open>json.Marshal\<close>
  (\<open>None\<close>, such as a channel) or come with their serialisation; it parses
  the one document above.
\<close>

definition example_json :: "string option json_lib" where
  "example_json =
     \<lparr>json_Marshal = (\<lambda>v. case v of
                         None \<Rightarrow> Inl (PlainError ''json: unsupported type'')
                       | Some s \<Rightarrow> Inr s),
      json_Unmarshal = (\<lambda>s. if s = push_response
                             then Inr [(''name'', ''-K1'')]
                             else Inl (PlainError ''invalid character''))\<rparr>"

text \<open>A reference that \<^verbatim>\<open>Push\<close> can be called on: the root reference with a path.\<close>

definition push_ref :: "unit Firebase_push" where
  "push_ref = Firebase.extend (fst root_ref) \<lparr>repo = (), path = ''/messages''\<rparr>"

text \<open>
  An original request that carries credentials, and the request for the
  location it was redirected to.
\<close>

definition redirect_example :: "request \<times> request" where
  "redirect_example =
     (\<lparr>Method = ''GET'', URL = ''https://example.com/.json'',
       Header = Some [(''Authorization'', [''Bearer t''])], Body = []\<rparr>,
      \<lparr>Method = ''GET'', URL = ''https://eu.example.com/.json'',
       Header = Some [(''Accept'', [''*/*''])], Body = []\<rparr>)"

section \<open>Streaming sessions\<close>

text \<open>
  Modelled from the spec: the functions that start and stop a streaming
  session are not in \<^verbatim>\<open>firebase.go\<close>, which only declares the fields
  \<^verbatim>\<open>watchMtx\<close>, \<^verbatim>\<open>watching\<close> and \<^verbatim>\<open>stopWatching\<close>.  The spec (section 4.4)
  describes the state machine Idle, Streaming, Idle or Failed: Start opens the
  one connection of the reference and starting again while active is a no-op or
  an explicit error; Stop signals the read loop to terminate and goes back to
  Idle; a read failure terminates the session.  The state is the reference, whose
  field \<open>watching\<close> is the active flag, with the number of decode loops that are
  reading its connection.  Each operation is one atomic step (the spec guards
  the streaming state with one lock per reference).
\<close>

text \<open>
  Modelled from the spec: what a start does while a session is active is a
  no-op or an explicit error, a choice of the implementation.
\<close>

datatype start_policy = NoOp | Reject

datatype start_result = Started | Ignored | Rejected

datatype stream_event = StartEv | StopEv | FailEv

text \<open>
  Modelled from the spec: Start.  On an active reference it is ignored or
  rejected and changes nothing; otherwise it sets the flag and one more decode
  loop reads the connection.
\<close>

definition stream_Start ::
    "start_policy \<Rightarrow> 'a Firebase_scheme \<times> nat \<Rightarrow> start_result \<times> ('a Firebase_scheme \<times> nat)" where
  "stream_Start pol s =
     (case s of (fb, loops) \<Rightarrow>
        if watching fb
        then ((case pol of NoOp \<Rightarrow> Ignored | Reject \<Rightarrow> Rejected), (fb, loops))
        else (Started, (fb\<lparr>watching := True\<rparr>, loops + 1)))"

text \<open>
  Modelled from the spec: Stop.  It ends the decode loop of the active session
  and clears the flag; on an idle reference it does nothing.
\<close>

definition stream_Stop :: "'a Firebase_scheme \<times> nat \<Rightarrow> 'a Firebase_scheme \<times> nat" where
  "stream_Stop s =
     (case s of (fb, loops) \<Rightarrow>
        if watching fb then (fb\<lparr>watching := False\<rparr>, loops - 1) else (fb, loops))"

text \<open>
  Modelled from the spec: a read or decode error, or a revocation by the server,
  terminates the active session.
\<close>

definition stream_Fail :: "'a Firebase_scheme \<times> nat \<Rightarrow> 'a Firebase_scheme \<times> nat" where
  "stream_Fail s =
     (case s of (fb, loops) \<Rightarrow>
        if watching fb then (fb\<lparr>watching := False\<rparr>, loops - 1) else (fb, loops))"

text \<open>Modelled from the spec: one step of the state machine.\<close>

fun stream_step ::
    "start_policy \<Rightarrow> 'a Firebase_scheme \<times> nat \<Rightarrow> stream_event \<Rightarrow> 'a Firebase_scheme \<times> nat" where
  "stream_step pol s StartEv = snd (stream_Start pol s)"
| "stream_step pol s StopEv = stream_Stop s"
| "stream_step pol s FailEv = stream_Fail s"

section \<open>Properties of the Go string functions\<close>

lemma HasSuffix_slash: "strings_HasSuffix s ''/'' \<longleftrightarrow> s \<noteq> [] \<and> last s = CHR ''/''"
  unfolding strings_HasSuffix_def
  by (cases s rule: rev_cases) auto

lemma TrimSuffix_slash:
  "strings_TrimSuffix s ''/'' = (if s \<noteq> [] \<and> last s = CHR ''/'' then butlast s else s)"
  by (simp add: strings_TrimSuffix_def HasSuffix_slash butlast_conv_take)

lemma TrimSuffix_append: "strings_TrimSuffix (s @ suf) suf = s"
  by (simp add: strings_TrimSuffix_def strings_HasSuffix_def suffix_def)

lemma TrimSuffix_absent: "\<not> suffix suf s \<Longrightarrow> strings_TrimSuffix s suf = s"
  by (simp add: strings_TrimSuffix_def strings_HasSuffix_def)

lemma dropWhile_slashes:
  assumes "c = [] \<or> hd c \<noteq> CHR ''/''"
  shows "dropWhile (\<lambda>x. x \<in> set ''/'') (replicate a CHR ''/'' @ c) = c"
proof -
  have "dropWhile (\<lambda>x. x \<in> set ''/'') (replicate a CHR ''/'' @ c)
      = dropWhile (\<lambda>x. x \<in> set ''/'') c"
    by (rule dropWhile_append2) simp
  also have "\<dots> = c" using assms by (cases c) auto
  finally show ?thesis .
qed

lemma Trim_slashes:
  assumes "c = [] \<or> (hd c \<noteq> CHR ''/'' \<and> last c \<noteq> CHR ''/'')"
  shows "strings_Trim (replicate a CHR ''/'' @ c @ replicate b CHR ''/'') ''/'' = c"
proof (cases "c = []")
  case True
  have "replicate a CHR ''/'' @ replicate b CHR ''/'' = replicate (a + b) CHR ''/''"
    by (simp add: replicate_add)
  then show ?thesis using True dropWhile_slashes [of "[]" "a + b"]
    by (simp add: strings_Trim_def)
next
  case False
  with assms have hd: "hd c \<noteq> CHR ''/''" and lst: "last c \<noteq> CHR ''/''" by auto
  have 1: "dropWhile (\<lambda>x. x \<in> set ''/'') (replicate a CHR ''/'' @ (c @ replicate b CHR ''/''))
        = c @ replicate b CHR ''/''"
    using False hd by (intro dropWhile_slashes) (simp add: hd_append)
  have 2: "dropWhile (\<lambda>x. x \<in> set ''/'') (replicate b CHR ''/'' @ rev c) = rev c"
    using False lst by (intro dropWhile_slashes) (simp add: hd_rev)
  show ?thesis
    unfolding strings_Trim_def using 1 2 by simp
qed

section \<open>Properties of the address normaliser\<close>

lemma sanitizeURL_no_scheme:
  assumes "\<not> strings_HasPrefix u ''https://''" and "\<not> strings_HasPrefix u ''http://''"
  shows "sanitizeURL u = strings_TrimSuffix (''https://'' @ u) ''/''"
  using assms by (simp add: sanitizeURL_def strings_TrimSuffix_def Let_def)

lemma sanitizeURL_http:
  assumes "strings_HasPrefix u ''http://''"
  shows "sanitizeURL u = strings_TrimSuffix u ''/''"
  using assms by (simp add: sanitizeURL_def strings_TrimSuffix_def Let_def)

lemma sanitizePath_core:
  assumes "d = [] \<or> (hd d \<noteq> CHR ''/'' \<and> last d \<noteq> CHR ''/'')"
  shows "sanitizePath (replicate n CHR ''/'' @ d @ replicate m CHR ''/'')
       = strings_TrimSuffix (strings_TrimSuffix d ''.json'') ''/''"
  using Trim_slashes [OF assms] by (simp add: sanitizePath_def)

lemma TrimSuffix_json_self: "strings_TrimSuffix (c @ ''.json'') ''.json'' = c"
  by (rule TrimSuffix_append)

lemma sanitizePath_variants:
  assumes c: "c = [] \<or> (hd c \<noteq> CHR ''/'' \<and> last c \<noteq> CHR ''/'')"
    and nj: "\<not> suffix ''.json'' c"
  shows "sanitizePath (replicate a CHR ''/'' @ c @ (if s then ''/'' else []) @
                       (if j then ''.json'' else []) @ replicate b CHR ''/'') = c"
proof -
  let ?S = "if s then ''/'' else []"
  let ?J = "if j then ''.json'' else []"
  have trim_c: "strings_TrimSuffix c ''/'' = c"
    using c by (auto simp: TrimSuffix_slash)
  show ?thesis
  proof (cases j)
    case False
    have eq: "replicate a CHR ''/'' @ c @ ?S @ ?J @ replicate b CHR ''/''
            = replicate a CHR ''/'' @ c @ replicate ((if s then 1 else 0) + b) CHR ''/''"
      using False by simp
    have "sanitizePath (replicate a CHR ''/'' @ c @ replicate ((if s then 1 else 0) + b) CHR ''/'')
        = strings_TrimSuffix (strings_TrimSuffix c ''.json'') ''/''"
      using c by (rule sanitizePath_core)
    also have "\<dots> = c"
      using nj trim_c by (simp add: TrimSuffix_absent)
    finally show ?thesis unfolding eq .
  next
    case True
    show ?thesis
    proof (cases "c = []")
      case empty: True
      have eq: "replicate a CHR ''/'' @ c @ ?S @ ?J @ replicate b CHR ''/''
              = replicate (a + (if s then 1 else 0)) CHR ''/'' @ ''.json'' @ replicate b CHR ''/''"
        using True empty by (simp add: replicate_app_Cons_same)
      have "sanitizePath (replicate (a + (if s then 1 else 0)) CHR ''/'' @ ''.json'' @
               replicate b CHR ''/'')
          = strings_TrimSuffix (strings_TrimSuffix ''.json'' ''.json'') ''/''"
        by (rule sanitizePath_core) simp
      also have "\<dots> = []"
        using TrimSuffix_json_self [of "[]"] by (simp add: TrimSuffix_slash)
      finally show ?thesis unfolding eq using empty by simp
    next
      case False
      let ?d = "c @ ?S @ ''.json''"
      have d: "?d = [] \<or> (hd ?d \<noteq> CHR ''/'' \<and> last ?d \<noteq> CHR ''/'')"
        using c False by (cases c) auto
      have eq: "replicate a CHR ''/'' @ c @ ?S @ ?J @ replicate b CHR ''/''
              = replicate a CHR ''/'' @ ?d @ replicate b CHR ''/''"
        using True by simp
      have "sanitizePath (replicate a CHR ''/'' @ ?d @ replicate b CHR ''/'')
          = strings_TrimSuffix (strings_TrimSuffix ?d ''.json'') ''/''"
        using d by (rule sanitizePath_core)
      also have "strings_TrimSuffix ?d ''.json'' = c @ ?S"
        using TrimSuffix_json_self [of "c @ ?S"] by simp
      also have "strings_TrimSuffix (c @ ?S) ''/'' = c"
        using c by (auto simp: TrimSuffix_slash)
      finally show ?thesis unfolding eq .
    qed
  qed
qed

lemma url_Child: "url (fst (Child h fb child)) = url fb @ ''/'' @ child"
  by (simp add: Child_def copy_def Let_def split: prod.splits)

lemma sanitizeURL_canonical:
  assumes "a \<noteq> []" and "last a \<noteq> CHR ''/''"
    and "\<not> strings_HasPrefix a ''https://''" and "\<not> strings_HasPrefix a ''http://''"
  shows "sanitizeURL a = ''https://'' @ a"
    and "sanitizeURL (a @ ''/'') = ''https://'' @ a"
    and "sanitizeURL (''https://'' @ a) = ''https://'' @ a"
    and "sanitizeURL (''https://'' @ a @ ''/'') = ''https://'' @ a"
proof -
  show "sanitizeURL a = ''https://'' @ a"
    using assms by (simp add: sanitizeURL_def HasSuffix_slash)
  have "\<not> strings_HasPrefix (a @ ''/'') ''https://''" "\<not> strings_HasPrefix (a @ ''/'') ''http://''"
    using assms unfolding strings_HasPrefix_def
    by (auto simp: prefix_append prefix_Cons)
  then show "sanitizeURL (a @ ''/'') = ''https://'' @ a"
    by (simp add: sanitizeURL_def HasSuffix_slash)
  show "sanitizeURL (''https://'' @ a) = ''https://'' @ a"
    using assms(1,2) by (simp add: sanitizeURL_def HasSuffix_slash strings_HasPrefix_def)
  show "sanitizeURL (''https://'' @ a @ ''/'') = ''https://'' @ a"
    by (simp add: sanitizeURL_def HasSuffix_slash strings_HasPrefix_def)
qed

lemma String_New: "String lib (snd (New h u cl)) (fst (New h u cl)) = sanitizeURL u @ ''/.json''"
  by (simp add: New_def String_def new_Values_def make_chan_def new_eventFuncs_def
      Values_entries_def Let_def nth_append)


section \<open>Schemes and trailing slashes of an address\<close>

text \<open>
  Claim C9.  An address that begins with neither \<^verbatim>\<open>https://\<close> nor \<^verbatim>\<open>http://\<close>
  gets \<^verbatim>\<open>https://\<close> prepended whatever else it begins with (then one trailing
  slash is removed): \<^verbatim>\<open>ftp://host\<close> becomes \<^verbatim>\<open>https://ftp://host\<close>.  An address
  that begins with \<^verbatim>\<open>http://\<close> only loses one trailing slash: it keeps the
  scheme \<^verbatim>\<open>http\<close> and is not upgraded to \<^verbatim>\<open>https\<close>.
\<close>

theorem sanitizeURL_prepends_https:
  "(\<not> strings_HasPrefix u ''https://'' \<and> \<not> strings_HasPrefix u ''http://'' \<longrightarrow>
      sanitizeURL u = strings_TrimSuffix (''https://'' @ u) ''/'' \<and>
      (u \<noteq> [] \<longrightarrow> strings_HasPrefix (sanitizeURL u) ''https://'')) \<and>
   sanitizeURL ''ftp://host'' = ''https://ftp://host'' \<and>
   (strings_HasPrefix u ''http://'' \<longrightarrow>
      sanitizeURL u = strings_TrimSuffix u ''/'' \<and>
      strings_HasPrefix (sanitizeURL u) ''http:/'' \<and>
      \<not> strings_HasPrefix (sanitizeURL u) ''https://'')"
proof (intro conjI impI)
  assume ns: "\<not> strings_HasPrefix u ''https://'' \<and> \<not> strings_HasPrefix u ''http://''"
  then show eq: "sanitizeURL u = strings_TrimSuffix (''https://'' @ u) ''/''"
    by (simp add: sanitizeURL_no_scheme)
  assume "u \<noteq> []"
  then show "strings_HasPrefix (sanitizeURL u) ''https://''"
    unfolding eq TrimSuffix_slash strings_HasPrefix_def
    by (cases u rule: rev_cases) (auto simp: butlast_append)
next
  show "sanitizeURL ''ftp://host'' = ''https://ftp://host''"
    by (simp add: sanitizeURL_def strings_HasPrefix_def HasSuffix_slash)
next
  assume h: "strings_HasPrefix u ''http://''"
  then show eq: "sanitizeURL u = strings_TrimSuffix u ''/''"
    by (rule sanitizeURL_http)
  from h obtain r where u: "u = ''http://'' @ r"
    unfolding strings_HasPrefix_def by (auto elim: prefixE)
  have eq': "sanitizeURL u = strings_TrimSuffix (''http://'' @ r) ''/''"
    using eq u by simp
  show "strings_HasPrefix (sanitizeURL u) ''http:/''"
    unfolding eq' TrimSuffix_slash strings_HasPrefix_def
    by (cases r rule: rev_cases) (auto simp: butlast_append)
  show "\<not> strings_HasPrefix (sanitizeURL u) ''https://''"
    unfolding eq' TrimSuffix_slash strings_HasPrefix_def
    by (cases r rule: rev_cases) (auto simp: butlast_append)
qed

theorem sanitizeURL_prepends_https_witness:
  "\<not> strings_HasPrefix ''example.com/'' ''https://'' \<and>
   \<not> strings_HasPrefix ''example.com/'' ''http://'' \<and>
   sanitizeURL ''example.com/'' = ''https://example.com'' \<and>
   strings_HasPrefix ''http://example.com/'' ''http://'' \<and>
   sanitizeURL ''http://example.com/'' = ''http://example.com''"
  using sanitizeURL_prepends_https [of "''example.com/''"]
    sanitizeURL_prepends_https [of "''http://example.com/''"]
  by (simp add: strings_HasPrefix_def TrimSuffix_slash)

text \<open>
  Claim C5, as the spec states it, fails: two trailing slashes, the scheme
  \<^verbatim>\<open>http://\<close> and the empty address each render to a URL of their own.
\<close>

theorem canonical_url_counterexample:
  "rendered (canned_lib 200 []) empty_heap ''example.com//'' None
     \<noteq> rendered (canned_lib 200 []) empty_heap ''example.com'' None \<and>
   rendered (canned_lib 200 []) empty_heap ''http://example.com'' None
     \<noteq> rendered (canned_lib 200 []) empty_heap ''example.com'' None \<and>
   rendered (canned_lib 200 []) empty_heap ''/'' None
     \<noteq> rendered (canned_lib 200 []) empty_heap [] None"
  by (simp add: rendered_def String_New sanitizeURL_def strings_HasPrefix_def HasSuffix_slash)

text \<open>
  Claim C5, amended.  For every non-empty address \<open>a\<close> that begins with neither
  \<^verbatim>\<open>https://\<close> nor \<^verbatim>\<open>http://\<close> and does not end with a slash, the four variants
  \<open>a\<close>, \<open>a/\<close>, \<open>https://a\<close> and \<open>https://a/\<close> render to the one URL
  \<open>https://a/.json\<close>: normalisation prepends \<^verbatim>\<open>https://\<close> when neither prefix is
  there and removes one trailing slash.
\<close>

theorem canonical_url:
  assumes "a \<noteq> []" and "last a \<noteq> CHR ''/''"
    and "\<not> strings_HasPrefix a ''https://''" and "\<not> strings_HasPrefix a ''http://''"
  shows "rendered lib h a cl = ''https://'' @ a @ ''/.json'' \<and>
         rendered lib h (a @ ''/'') cl = ''https://'' @ a @ ''/.json'' \<and>
         rendered lib h (''https://'' @ a) cl = ''https://'' @ a @ ''/.json'' \<and>
         rendered lib h (''https://'' @ a @ ''/'') cl = ''https://'' @ a @ ''/.json''"
  using sanitizeURL_canonical [OF assms] by (simp add: rendered_def String_New)

theorem canonical_url_witness:
  "''example.com'' \<noteq> [] \<and> last ''example.com'' \<noteq> CHR ''/'' \<and>
   \<not> strings_HasPrefix ''example.com'' ''https://'' \<and>
   \<not> strings_HasPrefix ''example.com'' ''http://'' \<and>
   rendered (canned_lib 200 []) empty_heap ''example.com'' None = ''https://example.com/.json'' \<and>
   rendered (canned_lib 200 []) empty_heap ''example.com/'' None = ''https://example.com/.json'' \<and>
   rendered (canned_lib 200 []) empty_heap ''https://example.com'' None = ''https://example.com/.json'' \<and>
   rendered (canned_lib 200 []) empty_heap ''https://example.com/'' None = ''https://example.com/.json''"
  using canonical_url [of "''example.com''" "canned_lib 200 []" empty_heap None]
  by (simp add: strings_HasPrefix_def)

section \<open>Child segments\<close>

lemma url_root_ref: "url (fst root_ref) = ''https://example.com''"
  by (simp add: root_ref_def New_def Let_def sanitizeURL_def strings_HasPrefix_def
      HasSuffix_slash split: prod.splits)

text \<open>
  Claim C3, as the spec states it, fails: \<^verbatim>\<open>Child\<close> does not call
  \<^verbatim>\<open>sanitizePath\<close>.  The child \<^verbatim>\<open>/users/\<close> of \<^verbatim>\<open>https://example.com\<close> has the
  address \<^verbatim>\<open>https://example.com//users/\<close>, with a duplicated separator, and not
  the address made of the normalised segment.
\<close>

theorem Child_counterexample:
  "url (fst (Child (snd root_ref) (fst root_ref) ''/users/'')) = ''https://example.com//users/'' \<and>
   url (fst (Child (snd root_ref) (fst root_ref) ''/users/''))
     \<noteq> url (fst root_ref) @ ''/'' @ sanitizePath ''/users/''"
proof -
  have "sanitizePath ''/users/'' = ''users''"
    using sanitizePath_core [of "''users''" 1 1]
    by (simp add: strings_TrimSuffix_def strings_HasSuffix_def suffix_to_prefix)
  then show ?thesis by (simp add: url_Child url_root_ref)
qed

text \<open>
  Claim C3, amended.  \<^verbatim>\<open>Child\<close> appends a slash and the segment as it is given.
  The normaliser \<^verbatim>\<open>sanitizePath\<close>, where it is applied, removes the leading and
  trailing slashes, then a \<^verbatim>\<open>.json\<close> suffix, then one trailing slash: for every
  \<open>c\<close> that neither begins nor ends with a slash and does not end with
  \<^verbatim>\<open>.json\<close>, all the variants of \<open>c\<close> with any number of leading slashes, at most
  one slash after \<open>c\<close>, an optional \<^verbatim>\<open>.json\<close> and any number of trailing slashes
  are normalised to \<open>c\<close>.
\<close>

theorem Child_appends_verbatim:
  "url (fst (Child h fb child)) = url fb @ ''/'' @ child \<and>
   ((c = [] \<or> (hd c \<noteq> CHR ''/'' \<and> last c \<noteq> CHR ''/'')) \<and> \<not> strings_HasSuffix c ''.json'' \<longrightarrow>
      sanitizePath (replicate a CHR ''/'' @ c @ (if s then ''/'' else []) @
                    (if j then ''.json'' else []) @ replicate b CHR ''/'') = c)"
  using sanitizePath_variants [of c a s j b]
  by (simp add: url_Child strings_HasSuffix_def)

theorem Child_appends_verbatim_witness:
  "url (fst (Child (snd root_ref) (fst root_ref) ''users'')) = ''https://example.com/users'' \<and>
   (hd ''users'' \<noteq> CHR ''/'' \<and> last ''users'' \<noteq> CHR ''/'') \<and>
   \<not> strings_HasSuffix ''users'' ''.json'' \<and>
   sanitizePath ''//users/.json/'' = ''users''"
  using Child_appends_verbatim [of "snd root_ref" "fst root_ref" "''users''" "''users''"
      "Suc (Suc 0)" True True "Suc 0"]
  by (simp add: url_root_ref strings_HasSuffix_def suffix_to_prefix)



section \<open>Request execution: responses\<close>

text \<open>
  Go's \<^verbatim>\<open>StatusCode/200\<close> is 1 exactly for the codes 200 to 399.
\<close>

lemma sdiv_200_eq_1: "(c::int) sdiv 200 = 1 \<longleftrightarrow> 200 \<le> c \<and> c < 400"
proof (cases "0 \<le> c")
  case True
  then have "c sdiv 200 = c div 200"
    by (cases "c = 0") (simp_all add: signed_divide_int_def)
  then show ?thesis by auto
next
  case False
  then have "c sdiv 200 = - (\<bar>c\<bar> div 200)"
    by (simp add: signed_divide_int_def)
  moreover have "0 \<le> \<bar>c\<bar> div 200" by simp
  ultimately show ?thesis using False by auto
qed

text \<open>
  What \<^verbatim>\<open>doRequest\<close> does with a response whose body could be read: the body
  is the result for the status codes 200 to 399, and the detail of the error
  for every other code.
\<close>

lemma doRequest_response:
  assumes "makeRequest lib h fb method body = Inr req"
    and "client_Do lib (client fb) log req = Inr resp"
    and "ReadAll resp = Inr respBody"
  shows "doRequest lib h fb method body log =
           (if 200 \<le> StatusCode resp \<and> StatusCode resp < 400
            then Inr respBody else Inl (errors_New respBody), log @ [req])"
  using assms by (simp add: doRequest_def sdiv_200_eq_1)

lemma makeRequest_root:
  "makeRequest (canned_lib code b) (snd root_ref) (fst root_ref) method body =
     Inr \<lparr>Method = (if method = [] then ''GET'' else method),
          URL = ''https://example.com/.json'', Header = Some [], Body = body\<rparr>"
  by (simp add: makeRequest_def http_NewRequest_def canned_lib_def root_ref_def String_New
      sanitizeURL_def strings_HasPrefix_def HasSuffix_slash)

text \<open>
  Claim C1 says that every status code outside 200 to 299 makes \<^verbatim>\<open>doRequest\<close>
  fail with the body as the error detail.  The code tests
  \<^verbatim>\<open>resp.StatusCode/200 != 1\<close>, so a response with status 304 and body
  \<^verbatim>\<open>Not Modified\<close> is a success that returns the body.
\<close>

theorem doRequest_304_is_success:
  "doRequest (canned_lib 304 ''Not Modified'') (snd root_ref) (fst root_ref) ''GET'' [] [] =
     (Inr ''Not Modified'',
      [\<lparr>Method = ''GET'', URL = ''https://example.com/.json'', Header = Some [], Body = []\<rparr>])"
  by (simp add: doRequest_def makeRequest_root) (simp add: canned_lib_def signed_divide_int_def)

section \<open>Request execution: transport errors\<close>

lemma doRequest_transport_error:
  assumes "makeRequest lib h fb method body = Inr req"
    and "client_Do lib (client fb) log req = Inl e"
  shows "doRequest lib h fb method body log =
           (Inl (case e of
                   UrlError op u inner \<Rightarrow>
                     if \<exists>e1. inner = Some e1 \<and> as_net_Error e1 = Some True then ErrTimeout e else e
                 | NetError msg t \<Rightarrow> if t then ErrTimeout e else e
                 | _ \<Rightarrow> e), log @ [req])"
  using assms by (auto simp: doRequest_def split: go_error.splits option.splits bool.splits)


text \<open>
  A \<^verbatim>\<open>url.Error\<close> that wraps a \<^verbatim>\<open>url.Error\<close> that wraps a timed-out error with a
  \<^verbatim>\<open>Timeout\<close> method alone: the inner \<^verbatim>\<open>url.Error\<close> is a \<^verbatim>\<open>net.Error\<close> whose
  \<^verbatim>\<open>Timeout()\<close> is true, so the result is an \<^verbatim>\<open>ErrTimeout\<close>.  The error that
  wraps the same timed-out error once wraps no \<^verbatim>\<open>net.Error\<close>: it is returned as
  it is, and so is that error when the client returns it unwrapped.
\<close>

lemma doRequest_Timeout_method_only:
  assumes "makeRequest lib h fb method body = Inr req"
    and "client_Do lib (client fb) log req = Inl e"
  shows "e = UrlError op u (Some (UrlError op' u' (Some (TimeoutMethodError msg True)))) \<Longrightarrow>
           fst (doRequest lib h fb method body log) = Inl (ErrTimeout e)"
    and "e = UrlError op u (Some (TimeoutMethodError msg t)) \<Longrightarrow>
           fst (doRequest lib h fb method body log) = Inl e"
    and "e = TimeoutMethodError msg t \<Longrightarrow>
           fst (doRequest lib h fb method body log) = Inl e"
  using doRequest_transport_error [OF assms] by simp_all



section \<open>The redirect policy\<close>

lemma fold_update_map_of:
  assumes "distinct (map fst es)"
  shows "map_of (fold (\<lambda>(k, v). AList.update k v) es acc) = map_of acc ++ map_of es"
  using assms
proof (induction es arbitrary: acc)
  case Nil
  then show ?case by simp
next
  case (Cons e es)
  obtain k v where e: "e = (k, v)" by (cases e)
  from Cons.prems e have k: "k \<notin> dom (map_of es)" and d: "distinct (map fst es)"
    by (auto simp: dom_map_of_conv_image_fst)
  have "map_of (fold (\<lambda>(k, v). AList.update k v) (e # es) acc)
      = map_of (AList.update k v acc) ++ map_of es"
    using Cons.IH [OF d] e by simp
  also have "\<dots> = (map_of acc)(k \<mapsto> v) ++ map_of es"
    by (simp add: update_conv')
  also have "\<dots> = map_of acc ++ map_of (e # es)"
    using k e by (auto simp: map_add_def fun_eq_iff split: option.splits)
  finally show ?case .
qed

lemma copy_headers_fold:
  assumes "Header req = Some hdr"
  shows "copy_headers es req = Inr (req\<lparr>Header := Some (fold (\<lambda>(k, v). AList.update k v) es hdr)\<rparr>)"
  using assms
proof (induction es arbitrary: req hdr)
  case Nil
  then show ?case by simp
next
  case (Cons e es)
  obtain k v where e: "e = (k, v)" by (cases e)
  have "Header (req\<lparr>Header := Some (AList.update k v hdr)\<rparr>) = Some (AList.update k v hdr)"
    by simp
  from Cons.IH [OF this] Cons.prems e show ?case by simp
qed

lemma copy_headers_nil_map:
  assumes "Header req = None"
  shows "copy_headers es req = (if es = [] then Inr req else Inl NilMapAssignment)"
  using assms by (cases es) auto

text \<open>
  Claim C6.  \<^verbatim>\<open>redirectPreserveHeaders\<close> is the \<^verbatim>\<open>CheckRedirect\<close> of the client
  that \<^verbatim>\<open>New\<close> builds when it is given none; \<open>via\<close> holds the requests made so
  far, the original one first.  With no request made it does nothing.  With
  more than 30 requests made it returns an error and leaves the request alone.
  Otherwise, for a request with a header map, it returns no error and every
  header of the original request is on the request with the original's value;
  the other headers, the method, the URL and the body of the request are
  unchanged.
\<close>

theorem redirectPreserveHeaders_policy:
  "CheckRedirect (client (fst (New h u None))) = Some redirectPreserveHeaders \<and>
   (via = [] \<longrightarrow> redirectPreserveHeaders req via = Inr (None, req)) \<and>
   (length via > 30 \<longrightarrow>
      redirectPreserveHeaders req via =
        Inr (Some (PlainError (decimal (length via) @ '' consecutive requests(redirects)'')), req)) \<and>
   (via \<noteq> [] \<and> length via \<le> 30 \<and> Header req \<noteq> None \<and>
    distinct (map fst (case Header (hd via) of None \<Rightarrow> [] | Some hdr \<Rightarrow> hdr)) \<longrightarrow>
      (\<exists>req'. redirectPreserveHeaders req via = Inr (None, req') \<and>
         (\<forall>key val. Header_get (hd via) key = Some val \<longrightarrow> Header_get req' key = Some val) \<and>
         (\<forall>key. Header_get (hd via) key = None \<longrightarrow> Header_get req' key = Header_get req key) \<and>
         Method req' = Method req \<and> URL req' = URL req \<and> Body req' = Body req))"
proof (intro conjI impI)
  show "CheckRedirect (client (fst (New h u None))) = Some redirectPreserveHeaders"
    by (simp add: New_def Let_def split: prod.splits)
next
  assume "via = []"
  then show "redirectPreserveHeaders req via = Inr (None, req)"
    by (simp add: redirectPreserveHeaders_def)
next
  assume "length via > 30"
  then show "redirectPreserveHeaders req via =
        Inr (Some (PlainError (decimal (length via) @ '' consecutive requests(redirects)'')), req)"
    by (auto simp: redirectPreserveHeaders_def defaultRedirectLimit_def)
next
  let ?es = "case Header (hd via) of None \<Rightarrow> [] | Some hdr \<Rightarrow> hdr"
  assume a: "via \<noteq> [] \<and> length via \<le> 30 \<and> Header req \<noteq> None \<and> distinct (map fst ?es)"
  then obtain hdr where hdr: "Header req = Some hdr" by auto
  let ?req' = "req\<lparr>Header := Some (fold (\<lambda>(k, v). AList.update k v) ?es hdr)\<rparr>"
  from a have hd: "via ! 0 = hd via" by (simp add: hd_conv_nth)
  have res: "redirectPreserveHeaders req via = Inr (None, ?req')"
    using a copy_headers_fold [OF hdr, of ?es]
    by (simp add: redirectPreserveHeaders_def defaultRedirectLimit_def hd)
  have get: "Header_get ?req' key = (map_of hdr ++ map_of ?es) key" for key
    using a by (simp add: Header_get_def fold_update_map_of)
  have first: "Header_get (hd via) key = map_of ?es key" for key
    by (simp add: Header_get_def split: option.splits)
  have old: "Header_get req key = map_of hdr key" for key
    by (simp add: Header_get_def hdr)
  show "\<exists>req'. redirectPreserveHeaders req via = Inr (None, req') \<and>
         (\<forall>key val. Header_get (hd via) key = Some val \<longrightarrow> Header_get req' key = Some val) \<and>
         (\<forall>key. Header_get (hd via) key = None \<longrightarrow> Header_get req' key = Header_get req key) \<and>
         Method req' = Method req \<and> URL req' = URL req \<and> Body req' = Body req"
  proof (intro exI [of _ ?req'] conjI allI impI)
    show "redirectPreserveHeaders req via = Inr (None, ?req')" by (rule res)
  next
    fix key val assume "Header_get (hd via) key = Some val"
    then show "Header_get ?req' key = Some val"
      unfolding get first by (simp add: map_add_def)
  next
    fix key assume "Header_get (hd via) key = None"
    then show "Header_get ?req' key = Header_get req key"
      unfolding get first old by (simp add: map_add_def)
  qed simp_all
qed

theorem redirectPreserveHeaders_policy_witness:
  "(\<exists>req'. redirectPreserveHeaders (snd redirect_example) [fst redirect_example] = Inr (None, req') \<and>
      Header_get req' ''Authorization'' = Some [''Bearer t''] \<and>
      Header_get req' ''Accept'' = Some [''*/*'']) \<and>
   redirectPreserveHeaders (snd redirect_example) (replicate 31 (fst redirect_example)) =
     Inr (Some (PlainError ''31 consecutive requests(redirects)''), snd redirect_example)"
proof
  have hyp: "[fst redirect_example] \<noteq> [] \<and> length [fst redirect_example] \<le> 30 \<and>
      Header (snd redirect_example) \<noteq> None \<and>
      distinct (map fst (case Header (hd [fst redirect_example]) of None \<Rightarrow> [] | Some hdr \<Rightarrow> hdr))"
    by (simp add: redirect_example_def)
  have a: "Header_get (hd [fst redirect_example]) ''Authorization'' = Some [''Bearer t'']"
    and b: "Header_get (hd [fst redirect_example]) ''Accept'' = None"
    and c: "Header_get (snd redirect_example) ''Accept'' = Some [''*/*'']"
    by (simp_all add: redirect_example_def Header_get_def)
  from redirectPreserveHeaders_policy [of _ _ "[fst redirect_example]" "snd redirect_example"] hyp
  obtain req' where r: "redirectPreserveHeaders (snd redirect_example) [fst redirect_example] = Inr (None, req')"
    and k: "\<forall>key val. Header_get (hd [fst redirect_example]) key = Some val \<longrightarrow> Header_get req' key = Some val"
    and o: "\<forall>key. Header_get (hd [fst redirect_example]) key = None \<longrightarrow> Header_get req' key = Header_get (snd redirect_example) key"
    by blast
  from r k o a b c
  show "\<exists>req'. redirectPreserveHeaders (snd redirect_example) [fst redirect_example] = Inr (None, req') \<and>
      Header_get req' ''Authorization'' = Some [''Bearer t''] \<and>
      Header_get req' ''Accept'' = Some [''*/*'']"
    by auto
next
  show "redirectPreserveHeaders (snd redirect_example) (replicate 31 (fst redirect_example)) =
     Inr (Some (PlainError ''31 consecutive requests(redirects)''), snd redirect_example)"
    using redirectPreserveHeaders_policy [of _ _ "replicate 31 (fst redirect_example)" "snd redirect_example"]
    by (simp add: decimal.simps)
qed

section \<open>Push\<close>

lemma root_ref_eval:
  "root_ref =
     (\<lparr>url = ''https://example.com'', params = Some 0,
       client = \<lparr>Transport = Some \<lparr>DisableKeepAlives = True, Dial = TimeoutDial\<rparr>,
                 CheckRedirect = Some redirectPreserveHeaders\<rparr>,
       eventMtx = Unlocked, eventFuncs = Some 0,
       watchMtx = Unlocked, watching = False, stopWatching = Some 0\<rparr>,
      \<lparr>values_objs = [[]], string_arrays = [], event_objs = [[]], chan_count = 1\<rparr>)"
  by (simp add: root_ref_def New_def new_Values_def make_chan_def new_eventFuncs_def
      empty_heap_def Let_def sanitizeURL_def strings_HasPrefix_def HasSuffix_slash)

text \<open>
  Claim C7.  When \<^verbatim>\<open>Push\<close> succeeds, the value was serialised, one request
  was given to the client, with the method \<^verbatim>\<open>POST\<close>, the serialised value as
  its body and the URL the reference renders to; its response body was parsed
  into a map, and the reference returned has the path of the parent, a slash,
  and what the map holds under \<^verbatim>\<open>name\<close>, with the parent's repo and client.
\<close>

theorem Push_success:
  assumes "Push lib js h fb v log = (Inr c, log')"
  shows "\<exists>bytes req resp respBody m.
        json_Marshal js v = Inr bytes \<and>
        makeRequest lib h fb ''POST'' bytes = Inr req \<and>
        Method req = ''POST'' \<and> Body req = bytes \<and> URL req = String lib h fb \<and>
        client_Do lib (client fb) log req = Inr resp \<and> log' = log @ [req] \<and>
        ReadAll resp = Inr respBody \<and>
        json_Unmarshal js respBody = Inr m \<and>
        path c = path fb @ ''/'' @ map_index m ''name'' \<and>
        repo c = repo fb \<and> client c = client fb"
  using assms
  by (auto simp: Push_def doRequest_def makeRequest_def http_NewRequest_def
      split: sum.splits option.splits go_error.splits bool.splits if_splits prod.splits)

lemma Push_example:
  "Push (canned_lib 200 push_response) example_json (snd root_ref) push_ref (Some ''true'') [] =
     (Inr \<lparr>url = [], params = None, client = client (fst root_ref),
           eventMtx = Unlocked, eventFuncs = None,
           watchMtx = Unlocked, watching = False, stopWatching = None,
           repo = (), path = ''/messages/-K1''\<rparr>,
      [\<lparr>Method = ''POST'', URL = ''https://example.com/.json'', Header = Some [], Body = ''true''\<rparr>])"
proof -
  have mk: "makeRequest (canned_lib 200 push_response) (snd root_ref) push_ref ''POST'' ''true'' =
      Inr \<lparr>Method = ''POST'', URL = ''https://example.com/.json'', Header = Some [], Body = ''true''\<rparr>"
    by (simp add: makeRequest_def http_NewRequest_def canned_lib_def push_ref_def String_def
        Firebase.defs root_ref_eval Values_entries_def Let_def)
  have d: "doRequest (canned_lib 200 push_response) (snd root_ref) push_ref ''POST'' ''true'' [] =
      (Inr push_response,
       [\<lparr>Method = ''POST'', URL = ''https://example.com/.json'', Header = Some [], Body = ''true''\<rparr>])"
    by (simp add: doRequest_def mk) (simp add: canned_lib_def signed_divide_int_def)
  have m: "json_Marshal example_json (Some ''true'') = Inr ''true''"
    and u: "json_Unmarshal example_json push_response = Inr [(''name'', ''-K1'')]"
    by (simp_all add: example_json_def)
  have f: "client push_ref = client (fst root_ref)" "repo push_ref = ()" "path push_ref = ''/messages''"
    by (simp_all add: push_ref_def Firebase.defs)
  show ?thesis
    by (simp add: Push_def m d u f map_index_def)
qed

theorem Push_success_witness:
  "Push (canned_lib 200 push_response) example_json (snd root_ref) push_ref (Some ''true'') [] =
     (Inr \<lparr>url = [], params = None, client = client (fst root_ref),
           eventMtx = Unlocked, eventFuncs = None,
           watchMtx = Unlocked, watching = False, stopWatching = None,
           repo = (), path = ''/messages/-K1''\<rparr>,
      [\<lparr>Method = ''POST'', URL = ''https://example.com/.json'', Header = Some [], Body = ''true''\<rparr>]) \<and>
   (\<exists>req resp m.
      makeRequest (canned_lib 200 push_response) (snd root_ref) push_ref ''POST'' ''true'' = Inr req \<and>
      Method req = ''POST'' \<and> Body req = ''true'' \<and>
      client_Do (canned_lib 200 push_response) (client push_ref) [] req = Inr resp \<and>
      ReadAll resp = Inr push_response \<and>
      json_Unmarshal example_json push_response = Inr m \<and>
      ''/messages/-K1'' = path push_ref @ ''/'' @ map_index m ''name'')"
proof -
  have m: "json_Marshal example_json (Some ''true'') = Inr ''true''"
    by (simp add: example_json_def)
  have r: "client_Do (canned_lib 200 push_response) cl log req = Inr resp \<Longrightarrow>
      ReadAll resp = Inr push_response" for cl log req resp
    by (auto simp: canned_lib_def)
  from Push_success [OF Push_example] m r show ?thesis
    using Push_example by fastforce
qed

text \<open>
  Claim C10.  When \<^verbatim>\<open>json.Marshal\<close> fails, \<^verbatim>\<open>Push\<close> returns its error and no
  reference, and the log of the requests given to the client is as it was: no
  request is made.
\<close>

theorem Push_marshal_error:
  assumes "json_Marshal js v = Inl err"
  shows "Push lib js h fb v log = (Inl err, log)"
  using assms by (simp add: Push_def)

theorem Push_marshal_error_witness:
  "json_Marshal example_json None = Inl (PlainError ''json: unsupported type'') \<and>
   Push (canned_lib 200 []) example_json (snd root_ref) push_ref None [] =
     (Inl (PlainError ''json: unsupported type''), [])"
proof -
  have m: "json_Marshal example_json None = Inl (PlainError ''json: unsupported type'')"
    by (simp add: example_json_def)
  show ?thesis
    using m Push_marshal_error [OF m, of "canned_lib 200 []" "snd root_ref" push_ref "[]"] by simp
qed

section \<open>Query parameters of a child\<close>

lemma fold_Values_store:
  assumes "m < length (values_objs g)"
  shows "fold (\<lambda>(k, v) h'. Values_store h' m k v) es g =
           g\<lparr>values_objs := (values_objs g)[m := fold (\<lambda>(k, v). AList.update k v) es (values_objs g ! m)]\<rparr>"
  using assms
proof (induction es arbitrary: g)
  case Nil
  then show ?case by simp
next
  case (Cons e es)
  obtain k v where e: "e = (k, v)" by (cases e)
  have "m < length (values_objs (Values_store g m k v))"
    using Cons.prems by (simp add: Values_store_def)
  from Cons.IH [OF this] Cons.prems e show ?case
    by (simp add: Values_store_def)
qed

lemma copy_result:
  "copy h fb =
     (\<lparr>url = url fb, params = Some (length (values_objs h)), client = client fb,
       eventMtx = Unlocked, eventFuncs = Some (length (event_objs h)),
       watchMtx = Unlocked, watching = False, stopWatching = Some (chan_count h)\<rparr>,
      h\<lparr>values_objs := values_objs h @
                           [fold (\<lambda>(k, v). AList.update k v) (Values_entries h (params fb)) []],
        event_objs := event_objs h @ [[]],
        chan_count := chan_count h + 1\<rparr>)"
proof -
  let ?h3 = "h\<lparr>values_objs := values_objs h @ [[]], chan_count := chan_count h + 1,
               event_objs := event_objs h @ [[]]\<rparr>"
  have "length (values_objs h) < length (values_objs ?h3)" by simp
  from fold_Values_store [OF this, of "Values_entries h (params fb)"]
  show ?thesis
    by (simp add: copy_def new_Values_def make_chan_def new_eventFuncs_def Let_def)
qed

lemma Child_result:
  "Child h fb child =
     (\<lparr>url = url fb @ ''/'' @ child, params = Some (length (values_objs h)), client = client fb,
       eventMtx = Unlocked, eventFuncs = Some (length (event_objs h)),
       watchMtx = Unlocked, watching = False, stopWatching = Some (chan_count h)\<rparr>,
      h\<lparr>values_objs := values_objs h @
                           [fold (\<lambda>(k, v). AList.update k v) (Values_entries h (params fb)) []],
        event_objs := event_objs h @ [[]],
        chan_count := chan_count h + 1\<rparr>)"
  by (simp add: Child_def copy_result)

text \<open>Writing or deleting a key of one map object leaves every other map object alone.\<close>

lemma Values_contents_frame:
  assumes "a \<noteq> m"
  shows "Values_contents (Values_store g m k v) (Some a) = Values_contents g (Some a)"
    and "Values_contents (Values_delete g m k) (Some a) = Values_contents g (Some a)"
proof -
  have s1: "slice_elems (Values_store g m k v) = slice_elems g"
    and s2: "slice_elems (Values_delete g m k) = slice_elems g"
    by (simp_all add: fun_eq_iff slice_elems_def Values_store_def Values_delete_def)
  have e1: "Values_entries (Values_store g m k v) (Some a) = Values_entries g (Some a)"
    and e2: "Values_entries (Values_delete g m k) (Some a) = Values_entries g (Some a)"
    using assms by (simp_all add: Values_entries_def Values_store_def Values_delete_def)
  show "Values_contents (Values_store g m k v) (Some a) = Values_contents g (Some a)"
    unfolding Values_contents_def s1 e1 ..
  show "Values_contents (Values_delete g m k) (Some a) = Values_contents g (Some a)"
    unfolding Values_contents_def s2 e2 ..
qed


text \<open>
  Claim C4, as the spec states it, fails for the values of the map.  The
  child's map is a new object, but the slice it holds under a key is the
  parent's slice, on the same backing array: after
  \<^verbatim>\<open>child.params["auth"][0] = "changed"\<close> the parent's parameter \<^verbatim>\<open>auth\<close> is
  \<^verbatim>\<open>changed\<close> too.
\<close>

theorem Child_params_counterexample:
  "Values_lookup (snd auth_child) (params (fst auth_child)) ''auth'' =
     Values_lookup (snd auth_child) (params (fst auth_ref)) ''auth'' \<and>
   Values_contents (snd auth_child) (params (fst auth_ref)) = [(''auth'', [''secret''])] \<and>
   parent_after_child_write = Inr [(''auth'', [''changed''])]"
  by (simp add: parent_after_child_write_def params_elem_store_def auth_child_def Child_result
      auth_ref_def root_ref_eval
      Values_lookup_def Values_entries_def Values_contents_def slice_elems_def slice_store_def)

text \<open>
  Claim C4, amended.  For a reference whose parameter map is a map object of the
  store, \<^verbatim>\<open>Child\<close> gives the child a map object of its own that holds, under
  every key, the value the parent's map holds (the same slice), and leaves the
  parent's map as it was.  From then on, in every store, assigning or deleting a
  key of the child's map leaves the contents of the parent's map unchanged, and
  assigning or deleting a key of the parent's map leaves the contents of the
  child's map unchanged.  The slices themselves are shared.
\<close>

theorem Child_params_independent:
  assumes p: "params fb = Some a" and a: "a < length (values_objs h)"
    and d: "distinct (map fst (values_objs h ! a))"
    and ch: "Child h fb child = (c, h')"
  shows "\<exists>m. params c = Some m \<and> m \<noteq> a \<and>
           (\<forall>k. Values_lookup h' (Some m) k = Values_lookup h (Some a) k) \<and>
           Values_contents h' (Some a) = Values_contents h (Some a) \<and>
           (\<forall>g k v. Values_contents (Values_store g m k v) (Some a) = Values_contents g (Some a) \<and>
                    Values_contents (Values_delete g m k) (Some a) = Values_contents g (Some a) \<and>
                    Values_contents (Values_store g a k v) (Some m) = Values_contents g (Some m) \<and>
                    Values_contents (Values_delete g a k) (Some m) = Values_contents g (Some m))"
proof -
  let ?m = "length (values_objs h)"
  let ?es = "Values_entries h (params fb)"
  from ch have c: "params c = Some ?m"
    and h': "h' = h\<lparr>values_objs := values_objs h @ [fold (\<lambda>(k, v). AList.update k v) ?es []],
                    event_objs := event_objs h @ [[]], chan_count := chan_count h + 1\<rparr>"
    by (auto simp: Child_result)
  have es: "?es = values_objs h ! a"
    using p a by (simp add: Values_entries_def)
  have ne: "?m \<noteq> a" using a by simp
  have "map_of (fold (\<lambda>(k, v). AList.update k v) (values_objs h ! a) []) = map_of (values_objs h ! a)"
    using fold_update_map_of [OF d, of "[]"] by simp
  then have lookup: "Values_lookup h' (Some ?m) k = Values_lookup h (Some a) k" for k
    unfolding h' es using a by (simp add: Values_lookup_def Values_entries_def)
  have "slice_elems h' = slice_elems h"
    by (simp add: fun_eq_iff slice_elems_def h')
  moreover have "Values_entries h' (Some a) = Values_entries h (Some a)"
    using a by (simp add: Values_entries_def h' nth_append)
  ultimately have same: "Values_contents h' (Some a) = Values_contents h (Some a)"
    by (simp add: Values_contents_def)
  show ?thesis
    using c ne lookup same Values_contents_frame [of a ?m] Values_contents_frame [of ?m a]
    by (intro exI [of _ ?m]) simp
qed

lemma auth_child_eval:
  "auth_child =
     (\<lparr>url = ''https://example.com/users'', params = Some 1, client = client (fst root_ref),
       eventMtx = Unlocked, eventFuncs = Some 1,
       watchMtx = Unlocked, watching = False, stopWatching = Some 1\<rparr>,
      \<lparr>values_objs = [[(''auth'', \<lparr>s_arr = 0, s_off = 0, s_len = 1, s_cap = 1\<rparr>)],
                      [(''auth'', \<lparr>s_arr = 0, s_off = 0, s_len = 1, s_cap = 1\<rparr>)]],
       string_arrays = [[''secret'']], event_objs = [[], []], chan_count = 2\<rparr>)"
  by (simp add: auth_child_def Child_result auth_ref_def root_ref_eval Values_entries_def)

theorem Child_params_independent_witness:
  "params (fst auth_ref) = Some 0 \<and> 0 < length (values_objs (snd auth_ref)) \<and>
   distinct (map fst (values_objs (snd auth_ref) ! 0)) \<and>
   (\<exists>m. params (fst auth_child) = Some m \<and> m \<noteq> 0 \<and>
      Values_lookup (snd auth_child) (Some m) ''auth'' =
        Some \<lparr>s_arr = 0, s_off = 0, s_len = 1, s_cap = 1\<rparr> \<and>
      Values_contents (Values_delete (snd auth_child) m ''auth'') (Some 0) = [(''auth'', [''secret''])])"
proof -
  have p: "params (fst auth_ref) = Some 0"
    and a: "0 < length (values_objs (snd auth_ref))"
    and d: "distinct (map fst (values_objs (snd auth_ref) ! 0))"
    by (simp_all add: auth_ref_def root_ref_eval)
  have ch: "Child (snd auth_ref) (fst auth_ref) ''users'' = (fst auth_child, snd auth_child)"
    by (simp add: auth_child_def)
  have l: "Values_lookup (snd auth_ref) (Some 0) ''auth'' = Some \<lparr>s_arr = 0, s_off = 0, s_len = 1, s_cap = 1\<rparr>"
    and c: "Values_contents (snd auth_ref) (Some 0) = [(''auth'', [''secret''])]"
    by (simp_all add: auth_ref_def root_ref_eval Values_lookup_def Values_entries_def
        Values_contents_def slice_elems_def)
  from Child_params_independent [OF p a d ch] l c p a d show ?thesis
    by metis
qed

section \<open>One streaming session for each reference\<close>

lemma stream_step_invariant:
  assumes "snd s = (if watching (fst s) then 1 else 0)"
  shows "snd (stream_step pol s ev) = (if watching (fst (stream_step pol s ev)) then 1 else 0)"
  using assms
  by (cases ev; cases s) (auto simp: stream_Start_def stream_Stop_def stream_Fail_def)

lemma stream_run_invariant:
  assumes "snd s = (if watching (fst s) then 1 else 0)"
  shows "snd (foldl (stream_step pol) s evs) =
           (if watching (fst (foldl (stream_step pol) s evs)) then 1 else 0)"
  using assms
proof (induction evs arbitrary: s)
  case Nil
  then show ?case by simp
next
  case (Cons ev evs)
  from Cons.IH [OF stream_step_invariant [OF Cons.prems]] show ?case by simp
qed

text \<open>
  Claim C8, on the model of the spec.  From a reference that is not streaming,
  whatever sequence of starts, stops and failures follows, the number of decode
  loops reading its connection is 1 while it is streaming and 0 otherwise, so
  never more than 1; and a start on a reference that is streaming is ignored
  or rejected, as the policy says, and changes nothing.
\<close>

theorem one_streaming_session:
  "(\<not> watching fb \<longrightarrow>
      snd (foldl (stream_step pol) (fb, 0) evs) =
        (if watching (fst (foldl (stream_step pol) (fb, 0) evs)) then 1 else 0) \<and>
      snd (foldl (stream_step pol) (fb, 0) evs) \<le> 1) \<and>
   (watching fb \<longrightarrow>
      stream_Start pol (fb, n) = ((case pol of NoOp \<Rightarrow> Ignored | Reject \<Rightarrow> Rejected), (fb, n)))"
proof (intro conjI impI)
  assume "\<not> watching fb"
  then have "snd (fb, 0::nat) = (if watching (fst (fb, 0::nat)) then 1 else 0)" by simp
  from stream_run_invariant [OF this]
  show inv: "snd (foldl (stream_step pol) (fb, 0) evs) =
        (if watching (fst (foldl (stream_step pol) (fb, 0) evs)) then 1 else 0)" .
  then show "snd (foldl (stream_step pol) (fb, 0) evs) \<le> 1" by simp
next
  assume "watching fb"
  then show "stream_Start pol (fb, n) = ((case pol of NoOp \<Rightarrow> Ignored | Reject \<Rightarrow> Rejected), (fb, n))"
    by (simp add: stream_Start_def)
qed

theorem one_streaming_session_witness:
  "\<not> watching (fst root_ref) \<and>
   snd (foldl (stream_step Reject) (fst root_ref, 0) [StartEv, StartEv, StopEv, StartEv, StartEv]) \<le> 1 \<and>
   watching (fst (stream_step NoOp (fst root_ref, 0) StartEv)) \<and>
   stream_Start Reject (stream_step NoOp (fst root_ref, 0) StartEv) =
     (Rejected, stream_step NoOp (fst root_ref, 0) StartEv)"
proof -
  have w: "\<not> watching (fst root_ref)" by (simp add: root_ref_eval)
  have s: "stream_step NoOp (fst root_ref, 0) StartEv = ((fst root_ref)\<lparr>watching := True\<rparr>, 1)"
    using w by (simp add: stream_Start_def)
  show ?thesis
    using w s one_streaming_session [of "fst root_ref" Reject "[StartEv, StartEv, StopEv, StartEv, StartEv]"]
      one_streaming_session [of "(fst root_ref)\<lparr>watching := True\<rparr>" Reject _ 1]
    by simp
qed


end
